theory Spec2Isabelle
  imports Complex_Main "HOL-Library.AList"
begin

section \<open>JavaScript values\<close>

text \<open>
  The class \<open>MultipleDelegation\<close> (MultipleDelegation.class.js) works on object
  identities, prototype slots and arrays that are shared and mutated in place, so the
  embedding is an explicit store: a value is a primitive or a reference, an operation
  takes the store and returns the new one, and every exception of the host language is
  a value of \<open>error\<close>.
\<close>

datatype intrinsic =
    MultipleDelegationPrototype
  | ObjectPrototype
  | ArrayPrototype
  | FunctionPrototype
  | NumberPrototype
  | StringPrototype
  | BooleanPrototype
  | SymbolPrototype
  | BigIntPrototype

datatype addr = Intr intrinsic | Alloc nat

text \<open>
  A number is a double; only its zero-ness and NaN-ness are observed here
  (\<open>ToBoolean\<close>, \<open>===\<close>, SameValueZero), so a finite double is kept as the
  rational it denotes, with \<open>Fin 0\<close> for +0 and \<open>NegZero\<close> for -0.
\<close>

datatype jsnum = NaN | NegZero | PosInf | NegInf | Fin rat

datatype jsval =
    Undefined
  | Null
  | JBool bool
  | JNum jsnum
  | JBigInt int
  | JStr string
  | JSym nat
  | Ref addr

text \<open>
  Modelled from the spec: reference.js (the registry \<open>$\<close>) is not among the sources.
  The spec describes it as an internal key registry "used to avoid name collisions", so
  \<open>$.list\<close>, \<open>$.setter\<close>, \<open>$.target\<close> and \<open>$.metadata\<close> are four keys
  distinct from each other and from every other property key.
\<close>

datatype pkey = KList | KSetter | KTarget | KMetadata | KIndex nat | KStr string | KSym nat

text \<open>
  An object has a prototype slot, an extensibility flag and own data properties in
  creation order (all writable; accessors are not modelled, except the debug record's
  getter, which is the shape \<open>Metadata\<close>). An array keeps its elements in its shape.
\<close>

datatype shape = Plain | Callable | Array "jsval list" | Metadata addr

record obj =
  shape :: shape
  proto :: jsval
  extensible :: bool
  props :: "(pkey \<times> jsval) list"

text \<open>
  \<open>NodeProxy t\<close> is \<open>new Proxy(t, MultipleDelegation.proxyHandler)\<close>: the only
  proxies this class creates.
\<close>

datatype cell = Object obj | NodeProxy addr

record state =
  builtin :: "intrinsic \<Rightarrow> cell"
  objs :: "cell list"

text \<open>
  \<open>TypeError\<close> is the host's exception. \<open>Unmodelled\<close> marks behaviour outside this
  embedding (a property found only through the prototype chain, a user-defined proxy or
  method, a reference to nothing): no theorem below takes it for a result of the code.
\<close>

datatype error = TypeError | Unmodelled

fun ebind :: "error + 'a \<Rightarrow> ('a \<Rightarrow> error + 'b) \<Rightarrow> error + 'b" where
  "ebind (Inl e) f = Inl e"
| "ebind (Inr x) f = f x"

section \<open>The store\<close>

fun lookup :: "state \<Rightarrow> addr \<Rightarrow> cell option" where
  "lookup s (Intr i) = Some (builtin s i)"
| "lookup s (Alloc n) = (if n < length (objs s) then Some (objs s ! n) else None)"

fun store :: "state \<Rightarrow> addr \<Rightarrow> cell \<Rightarrow> state" where
  "store s (Intr i) c = s\<lparr>builtin := (builtin s)(i := c)\<rparr>"
| "store s (Alloc n) c = s\<lparr>objs := (objs s)[n := c]\<rparr>"

definition alloc :: "state \<Rightarrow> cell \<Rightarrow> addr \<times> state" where
  "alloc s c = (Alloc (length (objs s)), s\<lparr>objs := objs s @ [c]\<rparr>)"

text \<open>An array literal \<open>[x1, ..., xn]\<close>: a fresh extensible array.\<close>

definition array_cell :: "jsval list \<Rightarrow> cell" where
  "array_cell xs =
     Object \<lparr>shape = Array xs, proto = Ref (Intr ArrayPrototype), extensible = True, props = []\<rparr>"

definition array_literal :: "state \<Rightarrow> jsval list \<Rightarrow> jsval \<times> state" where
  "array_literal s xs = (let (a, s') = alloc s (array_cell xs) in (Ref a, s'))"

text \<open>
  Modelled from the spec: interceptHandler.js (the traps of \<open>proxyHandler\<close>) is not
  among the sources. By the spec (4.3, 6) \<open>ownKeys\<close> and \<open>getPrototypeOf\<close> forward
  to the node's own backing storage, \<open>get\<close> tries that storage first, and there is no
  \<open>setPrototypeOf\<close> trap, so that operation reaches the target as well. \<open>backing\<close>
  is the object such an operation on a reference works on.
\<close>

definition backing :: "state \<Rightarrow> addr \<Rightarrow> (addr \<times> obj) option" where
  "backing s a =
     (case lookup s a of
        None \<Rightarrow> None
      | Some (Object ob) \<Rightarrow> Some (a, ob)
      | Some (NodeProxy t) \<Rightarrow>
          (case lookup s t of Some (Object ob) \<Rightarrow> Some (t, ob) | _ \<Rightarrow> None))"

section \<open>Host operations the class calls\<close>

text \<open>\<open>ToBoolean\<close>.\<close>

fun truthy :: "jsval \<Rightarrow> bool" where
  "truthy Undefined = False"
| "truthy Null = False"
| "truthy (JBool b) = b"
| "truthy (JNum n) = (n \<noteq> NaN \<and> n \<noteq> NegZero \<and> n \<noteq> Fin 0)"
| "truthy (JBigInt i) = (i \<noteq> 0)"
| "truthy (JStr x) = (x \<noteq> [])"
| "truthy (JSym _) = True"
| "truthy (Ref _) = True"

text \<open>\<open>===\<close>: NaN equals nothing, +0 equals -0.\<close>

fun canon :: "jsval \<Rightarrow> jsval" where
  "canon (JNum NegZero) = JNum (Fin 0)"
| "canon v = v"

definition strict_eq :: "jsval \<Rightarrow> jsval \<Rightarrow> bool" where
  "strict_eq x y = (x \<noteq> JNum NaN \<and> canon x = canon y)"

text \<open>
  \<open>new Set(xs)\<close> read back by spread: \<open>Set.prototype.add\<close> compares with
  SameValueZero, skips a value already there and stores -0 as +0; iteration is in
  insertion order.
\<close>

definition same_value_zero :: "jsval \<Rightarrow> jsval \<Rightarrow> bool" where
  "same_value_zero x y = (canon x = canon y)"

definition set_add :: "jsval list \<Rightarrow> jsval \<Rightarrow> jsval list" where
  "set_add es v = (if \<exists>e \<in> set es. same_value_zero e v then es else es @ [canon v])"

definition new_Set :: "jsval list \<Rightarrow> jsval list" where
  "new_Set xs = foldl set_add [] xs"

datatype jstype =
  TUndefined | TObject | TBoolean | TNumber | TBigInt | TString | TSymbol | TFunction

definition typeof :: "state \<Rightarrow> jsval \<Rightarrow> error + jstype" where
  "typeof s v =
     (case v of
        Undefined \<Rightarrow> Inr TUndefined
      | Null \<Rightarrow> Inr TObject
      | JBool _ \<Rightarrow> Inr TBoolean
      | JNum _ \<Rightarrow> Inr TNumber
      | JBigInt _ \<Rightarrow> Inr TBigInt
      | JStr _ \<Rightarrow> Inr TString
      | JSym _ \<Rightarrow> Inr TSymbol
      | Ref a \<Rightarrow>
          (case backing s a of
             None \<Rightarrow> Inl Unmodelled
           | Some (_, ob) \<Rightarrow> Inr (if shape ob = Callable then TFunction else TObject)))"

definition own_keys :: "obj \<Rightarrow> pkey list" where
  "own_keys ob =
     (case shape ob of
        Array xs \<Rightarrow> map KIndex [0 ..< length xs] @ [KStr ''length''] @ map fst (props ob)
      | Metadata _ \<Rightarrow> map fst (props ob) @ [KStr ''delegationList'']
      | _ \<Rightarrow> map fst (props ob))"

text \<open>\<open>Reflect.ownKeys\<close>.\<close>

definition reflect_ownKeys :: "state \<Rightarrow> jsval \<Rightarrow> error + pkey list" where
  "reflect_ownKeys s v =
     (case v of
        Ref a \<Rightarrow> (case backing s a of None \<Rightarrow> Inl Unmodelled | Some (_, ob) \<Rightarrow> Inr (own_keys ob))
      | _ \<Rightarrow> Inl TypeError)"

text \<open>
  \<open>v[k]\<close> for a registry key \<open>k\<close>: the own data property of the backing object. A key
  that is not an own property would be searched along the prototype chain and the
  delegates, which is outside the embedding.
\<close>

definition get :: "state \<Rightarrow> jsval \<Rightarrow> pkey \<Rightarrow> error + jsval" where
  "get s v k =
     (case v of
        Undefined \<Rightarrow> Inl TypeError
      | Null \<Rightarrow> Inl TypeError
      | Ref a \<Rightarrow>
          (case backing s a of
             None \<Rightarrow> Inl Unmodelled
           | Some (_, ob) \<Rightarrow>
               (case map_of (props ob) k of Some x \<Rightarrow> Inr x | None \<Rightarrow> Inl Unmodelled))
      | _ \<Rightarrow> Inl Unmodelled)"

text \<open>
  \<open>v[k] = x\<close> in strict code (class bodies are strict): overwrite the own property, or
  create it when the object is extensible, else TypeError.
\<close>

definition put :: "state \<Rightarrow> jsval \<Rightarrow> pkey \<Rightarrow> jsval \<Rightarrow> error + state" where
  "put s v k x =
     (case v of
        Undefined \<Rightarrow> Inl TypeError
      | Null \<Rightarrow> Inl TypeError
      | Ref a \<Rightarrow>
          (case lookup s a of
             Some (Object ob) \<Rightarrow>
               (if k \<in> fst ` set (props ob) \<or> extensible ob
                then Inr (store s a (Object (ob\<lparr>props := AList.update k x (props ob)\<rparr>)))
                else Inl TypeError)
           | _ \<Rightarrow> Inl Unmodelled)
      | _ \<Rightarrow> Inl Unmodelled)"

text \<open>\<open>Object.getPrototypeOf\<close>.\<close>

definition object_getPrototypeOf :: "state \<Rightarrow> jsval \<Rightarrow> error + jsval" where
  "object_getPrototypeOf s v =
     (case v of
        Undefined \<Rightarrow> Inl TypeError
      | Null \<Rightarrow> Inl TypeError
      | JBool _ \<Rightarrow> Inr (Ref (Intr BooleanPrototype))
      | JNum _ \<Rightarrow> Inr (Ref (Intr NumberPrototype))
      | JBigInt _ \<Rightarrow> Inr (Ref (Intr BigIntPrototype))
      | JStr _ \<Rightarrow> Inr (Ref (Intr StringPrototype))
      | JSym _ \<Rightarrow> Inr (Ref (Intr SymbolPrototype))
      | Ref a \<Rightarrow> (case backing s a of None \<Rightarrow> Inl Unmodelled | Some (_, ob) \<Rightarrow> Inr (proto ob)))"

text \<open>
  \<open>Object.setPrototypeOf(O, V)\<close>: TypeError for a null or undefined \<open>O\<close> and for a
  \<open>V\<close> that is neither an object nor null; a primitive \<open>O\<close> is returned untouched;
  otherwise the object's [[SetPrototypeOf]] must succeed. It succeeds when \<open>V\<close> is
  the current prototype already; it fails on \<open>Object.prototype\<close> (immutable
  prototype), on a non-extensible object and on a cycle. The cycle search stops at the
  first proxy, which is where the class's only call starts it.
\<close>

definition object_setPrototypeOf :: "state \<Rightarrow> jsval \<Rightarrow> jsval \<Rightarrow> error + state" where
  "object_setPrototypeOf s O' V =
     (case O' of
        Undefined \<Rightarrow> Inl TypeError
      | Null \<Rightarrow> Inl TypeError
      | Ref a \<Rightarrow>
          (case V of
             Null \<Rightarrow>
               (case backing s a of
                  None \<Rightarrow> Inl Unmodelled
                | Some (b, ob) \<Rightarrow>
                    if proto ob = Null then Inr s
                    else if b = Intr ObjectPrototype \<or> \<not> extensible ob then Inl TypeError
                    else Inr (store s b (Object (ob\<lparr>proto := Null\<rparr>))))
           | Ref p \<Rightarrow>
               (case backing s a of
                  None \<Rightarrow> Inl Unmodelled
                | Some (b, ob) \<Rightarrow>
                    if proto ob = Ref p then Inr s
                    else if b = Intr ObjectPrototype \<or> \<not> extensible ob then Inl TypeError
                    else if p = b then Inl TypeError
                    else (case lookup s p of
                            Some (NodeProxy _) \<Rightarrow> Inr (store s b (Object (ob\<lparr>proto := Ref p\<rparr>)))
                          | _ \<Rightarrow> Inl Unmodelled))
           | _ \<Rightarrow> Inl TypeError)
      | _ \<Rightarrow> (case V of Null \<Rightarrow> Inr s | Ref _ \<Rightarrow> Inr s | _ \<Rightarrow> Inl TypeError))"

text \<open>
  A plain array: its prototype is \<open>Array.prototype\<close> and it has no own property
  besides its elements and \<open>length\<close>, so \<open>unshift\<close>, \<open>filter\<close> and the iterator
  resolve to the built-ins (which are taken to be intact).
\<close>

definition plain_array :: "state \<Rightarrow> addr \<Rightarrow> (obj \<times> jsval list) option" where
  "plain_array s a =
     (case lookup s a of
        Some (Object ob) \<Rightarrow>
          (case shape ob of
             Array xs \<Rightarrow>
               if proto ob = Ref (Intr ArrayPrototype) \<and> props ob = [] then Some (ob, xs)
               else None
           | _ \<Rightarrow> None)
      | _ \<Rightarrow> None)"

text \<open>\<open>Array.isArray\<close>, which looks through a proxy.\<close>

definition isArray :: "state \<Rightarrow> jsval \<Rightarrow> error + bool" where
  "isArray s v =
     (case v of
        Ref a \<Rightarrow>
          (case backing s a of
             None \<Rightarrow> Inl Unmodelled
           | Some (_, ob) \<Rightarrow> Inr (case shape ob of Array _ \<Rightarrow> True | _ \<Rightarrow> False))
      | _ \<Rightarrow> Inr False)"

text \<open>
  The elements a spread \<open>...v\<close> yields: those of a plain array, the characters of a
  string; TypeError for the other primitives, which are not iterable.
\<close>

definition iterate :: "state \<Rightarrow> jsval \<Rightarrow> error + jsval list" where
  "iterate s v =
     (case v of
        Ref a \<Rightarrow> (case plain_array s a of Some (_, xs) \<Rightarrow> Inr xs | None \<Rightarrow> Inl Unmodelled)
      | JStr x \<Rightarrow> Inr (map (\<lambda>c. JStr [c]) x)
      | _ \<Rightarrow> Inl TypeError)"

text \<open>\<open>v.length == 0\<close>.\<close>

definition length_is_zero :: "state \<Rightarrow> jsval \<Rightarrow> error + bool" where
  "length_is_zero s v =
     (case v of
        Undefined \<Rightarrow> Inl TypeError
      | Null \<Rightarrow> Inl TypeError
      | JStr x \<Rightarrow> Inr (x = [])
      | Ref a \<Rightarrow>
          (case lookup s a of
             Some (Object ob) \<Rightarrow>
               (case shape ob of Array xs \<Rightarrow> Inr (xs = []) | _ \<Rightarrow> Inl Unmodelled)
           | _ \<Rightarrow> Inl Unmodelled)
      | _ \<Rightarrow> Inr False)"

text \<open>
  \<open>v.unshift(x)\<close>: in place; TypeError on a non-extensible array and on a primitive
  (which has no such method).
\<close>

definition unshift :: "state \<Rightarrow> jsval \<Rightarrow> jsval \<Rightarrow> error + state" where
  "unshift s v x =
     (case v of
        Ref a \<Rightarrow>
          (case plain_array s a of
             Some (ob, xs) \<Rightarrow>
               if extensible ob then Inr (store s a (Object (ob\<lparr>shape := Array (x # xs)\<rparr>)))
               else Inl TypeError
           | None \<Rightarrow> Inl Unmodelled)
      | _ \<Rightarrow> Inl TypeError)"

text \<open>\<open>v.filter(f)\<close>: a new array.\<close>

definition filter_array :: "state \<Rightarrow> jsval \<Rightarrow> (jsval \<Rightarrow> bool) \<Rightarrow> error + (jsval \<times> state)" where
  "filter_array s v f =
     (case v of
        Ref a \<Rightarrow>
          (case plain_array s a of
             Some (_, xs) \<Rightarrow> Inr (array_literal s (filter f xs))
           | None \<Rightarrow> Inl Unmodelled)
      | _ \<Rightarrow> Inl TypeError)"

section \<open>The class MultipleDelegation\<close>

text \<open>
  \<open>static [Symbol.hasInstance](instance)\<close>, with \<open>this\<close> the class itself. The
  function falls off its end, returning \<open>undefined\<close>, when the guard fails.
\<close>

definition hasInstance :: "state \<Rightarrow> jsval \<Rightarrow> error + jsval" where
  "hasInstance s instance =
     (if \<not> truthy instance then Inr Undefined
      else ebind (typeof s instance) (\<lambda>ty.
        if ty \<noteq> TObject then Inr Undefined
        else ebind (reflect_ownKeys s instance) (\<lambda>ks.
          if KTarget \<notin> set ks then Inr Undefined
          else ebind (get s instance KTarget) (\<lambda>t.
               ebind (object_getPrototypeOf s t) (\<lambda>p.
               Inr (JBool (p = Ref (Intr MultipleDelegationPrototype))))))))"

text \<open>\<open>v instanceof MultipleDelegation\<close>: \<open>ToBoolean\<close> of the method's result.\<close>

definition instanceof :: "state \<Rightarrow> jsval \<Rightarrow> error + bool" where
  "instanceof s v = ebind (hasInstance s v) (\<lambda>r. Inr (truthy r))"

text \<open>
  \<open>[$.setter](prototype)\<close>, with \<open>this\<close> the raw target. The wrapped \<open>[prototype]\<close>,
  \<open>prototypeList\<close> and the Set never escape and stay HOL lists; the array stored under
  \<open>$.list\<close> is a new one on every call.
\<close>

definition setter :: "state \<Rightarrow> jsval \<Rightarrow> jsval \<Rightarrow> error + state" where
  "setter s this prototype =
     ebind (isArray s prototype) (\<lambda>isarr.
     ebind (get s this KList) (\<lambda>current.
     ebind (iterate s current) (\<lambda>xs.
     ebind (if isarr then iterate s prototype else Inr [prototype]) (\<lambda>ys.
     let (l, s') = array_literal s (new_Set (xs @ ys)) in put s' this KList l))))"

text \<open>
  \<open>new MultipleDelegation(delegationList = [])\<close>, returning \<open>{ proxy, target }\<close> as
  the pair \<open>(proxy, target)\<close>. The fresh target finds \<open>$.setter\<close> on the class
  prototype.
\<close>

definition construct :: "state \<Rightarrow> jsval \<Rightarrow> error + ((jsval \<times> jsval) \<times> state)" where
  "construct s0 delegationList0 =
     (let (t, s1) = alloc s0 (Object \<lparr>shape = Plain,
                                      proto = Ref (Intr MultipleDelegationPrototype),
                                      extensible = True, props = []\<rparr>);
          (delegationList, s2) =
             (if delegationList0 = Undefined then array_literal s1 [] else (delegationList0, s1));
          (l, s3) = array_literal s2 []
      in ebind (put s3 (Ref t) KList l) (\<lambda>s4.
         ebind (setter s4 (Ref t) delegationList) (\<lambda>s5.
         ebind (put s5 (Ref t) KTarget (Ref t)) (\<lambda>s6.
         let (p, s7) = alloc s6 (NodeProxy t);
             (m, s8) = alloc s7 (Object \<lparr>shape = Metadata t,
                                         proto = Ref (Intr ObjectPrototype),
                                         extensible = True,
                                         props = [(KStr ''type'', JStr ''Multiple delegation proxy'')]\<rparr>)
         in ebind (put s8 (Ref t) KMetadata (Ref m)) (\<lambda>s9. Inr ((Ref p, Ref t), s9))))))"

text \<open>
  \<open>target[$.setter](arg)\<close> for a target that is not known to be fresh: the method is
  the class's when the target is an object whose prototype is the class prototype and
  that does not shadow the key.
\<close>

definition call_setter :: "state \<Rightarrow> jsval \<Rightarrow> jsval \<Rightarrow> error + state" where
  "call_setter s target arg =
     (case target of
        Undefined \<Rightarrow> Inl TypeError
      | Null \<Rightarrow> Inl TypeError
      | Ref a \<Rightarrow>
          (case lookup s a of
             Some (Object ob) \<Rightarrow>
               if proto ob = Ref (Intr MultipleDelegationPrototype)
                  \<and> KSetter \<notin> fst ` set (props ob)
               then setter s (Ref a) arg
               else Inl Unmodelled
           | _ \<Rightarrow> Inl Unmodelled)
      | _ \<Rightarrow> Inl Unmodelled)"

text \<open>
  The callback \<open>item => item && item !== multipleDelegationProxy\<close>, read as a
  condition.
\<close>

definition keep_item :: "jsval \<Rightarrow> jsval \<Rightarrow> bool" where
  "keep_item multipleDelegationProxy item =
     (truthy item \<and> \<not> strict_eq item multipleDelegationProxy)"

text \<open>
  \<open>static addDelegation({ targetObject, delegationList = [] })\<close>. An omitted
  \<open>delegationList\<close> defaults to an empty array, whose length is 0. The function
  returns \<open>undefined\<close>; the result here is the store it leaves.
\<close>

definition addDelegation :: "state \<Rightarrow> jsval \<Rightarrow> jsval \<Rightarrow> error + state" where
  "addDelegation s targetObject delegationList =
     (if delegationList = Undefined then Inr s
      else ebind (length_is_zero s delegationList) (\<lambda>z.
        if z then Inr s
        else ebind (object_getPrototypeOf s targetObject) (\<lambda>currentPrototype.
             ebind (unshift s delegationList currentPrototype) (\<lambda>s1.
             ebind (instanceof s1 currentPrototype) (\<lambda>isNode.
             ebind (if isNode then Inr s1
                    else ebind (construct s1 Undefined) (\<lambda>((proxy, target), s2).
                         object_setPrototypeOf s2 targetObject proxy)) (\<lambda>s3.
             ebind (object_getPrototypeOf s3 targetObject) (\<lambda>multipleDelegationProxy.
             ebind (filter_array s3 delegationList (keep_item multipleDelegationProxy))
                   (\<lambda>(filtered, s4).
             ebind (get s4 multipleDelegationProxy KTarget) (\<lambda>target.
             call_setter s4 target filtered)))))))))"

text \<open>A call whose second argument is the array literal \<open>[x1, ..., xn]\<close>.\<close>

definition addDelegation_literal :: "state \<Rightarrow> jsval \<Rightarrow> jsval list \<Rightarrow> error + state" where
  "addDelegation_literal s targetObject xs =
     (let (delegationList, s') = array_literal s xs in addDelegation s' targetObject delegationList)"

definition construct_literal :: "state \<Rightarrow> jsval list \<Rightarrow> error + ((jsval \<times> jsval) \<times> state)" where
  "construct_literal s xs =
     (let (delegationList, s') = array_literal s xs in construct s' delegationList)"

definition setter_literal :: "state \<Rightarrow> jsval \<Rightarrow> jsval list \<Rightarrow> error + state" where
  "setter_literal s this xs =
     (let (prototype, s') = array_literal s xs in setter s' this prototype)"

section \<open>Observations\<close>

text \<open>
  The delegates of a raw target, \<open>target[$.list]\<close> read as a sequence, and of a node
  given in wrapped or raw form, \<open>node[$.target][$.list]\<close>.
\<close>

definition target_delegates :: "state \<Rightarrow> jsval \<Rightarrow> error + jsval list" where
  "target_delegates s target = ebind (get s target KList) (iterate s)"







text \<open>The address holds an object that is no proxy.\<close>

definition is_object :: "state \<Rightarrow> addr \<Rightarrow> bool" where
  "is_object s a = (case lookup s a of Some (Object _) \<Rightarrow> True | _ \<Rightarrow> False)"


section \<open>Hosts and nodes the statements speak of\<close>












section \<open>The merge as the specification words it\<close>

text \<open>
  Specification 4.2: "filter so that each distinct object reference appears exactly
  once, keeping the position of its first occurrence (not its last)".
\<close>

fun keep_first :: "'a list \<Rightarrow> 'a list" where
  "keep_first [] = []"
| "keep_first (x # xs) = x # keep_first (filter (\<lambda>y. y \<noteq> x) xs)"

section \<open>The cells a first call appends\<close>



section \<open>A small store to run the class on\<close>

text \<open>
  The intrinsic prototypes; a parent \<open>P\<close> at address 0; a host at address 1 whose
  prototype is \<open>P\<close>; three further objects \<open>A\<close>, \<open>B\<close>, \<open>C\<close> at 2, 3 and 4;
  a host without a prototype at 5; an object at 6 that carries the marker key with the
  value null; a frozen host at 7.
\<close>

definition plain_cell :: "jsval \<Rightarrow> cell" where
  "plain_cell p = Object \<lparr>shape = Plain, proto = p, extensible = True, props = []\<rparr>"

definition example_store :: state where
  "example_store =
     \<lparr>builtin = (\<lambda>i. plain_cell (if i = ObjectPrototype then Null else Ref (Intr ObjectPrototype))),
      objs = [plain_cell (Ref (Intr ObjectPrototype)),
              plain_cell (Ref (Alloc 0)),
              plain_cell (Ref (Intr ObjectPrototype)),
              plain_cell (Ref (Intr ObjectPrototype)),
              plain_cell (Ref (Intr ObjectPrototype)),
              plain_cell Null,
              Object \<lparr>shape = Plain, proto = Ref (Intr ObjectPrototype), extensible = True,
                      props = [(KTarget, Null)]\<rparr>,
              Object \<lparr>shape = Plain, proto = Ref (Alloc 0), extensible = False,
                      props = []\<rparr>]\<rparr>"

text \<open>
  The store after \<open>addDelegation({ targetObject: host, delegationList: [A] })\<close> on
  the host at address 1: the argument array is at address 8, the raw target at 9, the
  node (the proxy) at 13.
\<close>

definition example_attached :: state where
  "example_attached =
     (case addDelegation_literal example_store (Ref (Alloc 1)) [Ref (Alloc 2)] of
        Inr s \<Rightarrow> s
      | Inl _ \<Rightarrow> example_store)"

text \<open>
  The store after \<open>new MultipleDelegation([])\<close> on \<open>example_store\<close>: the raw
  target is at address 9, the proxy at 12.
\<close>

definition example_empty_node :: state where
  "example_empty_node =
     (case construct_literal example_store [] of
        Inr (_, s) \<Rightarrow> s
      | Inl _ \<Rightarrow> example_store)"

text \<open>
  \<open>example_attached\<close> with further objects: at address 17 a function that carries the
  marker over the raw target; at 18 a host whose prototype is the object at 6 (marker
  null); at 19 an array \<open>[A]\<close> that is not extensible; at 20 a host without a prototype
  that is not extensible; at 21 the array \<open>[A]\<close>; at 22 the array
  \<open>[proxy, raw target, B]\<close>; at 23 an array of falsy values, \<open>A\<close> and \<open>A\<close> again.
\<close>

definition edge_store :: state where
  "edge_store =
     example_attached\<lparr>objs := objs example_attached @
       [Object \<lparr>shape = Callable, proto = Ref (Intr FunctionPrototype), extensible = True,
                props = [(KTarget, Ref (Alloc 9))]\<rparr>,
        plain_cell (Ref (Alloc 6)),
        Object \<lparr>shape = Array [Ref (Alloc 2)], proto = Ref (Intr ArrayPrototype),
                extensible = False, props = []\<rparr>,
        Object \<lparr>shape = Plain, proto = Null, extensible = False, props = []\<rparr>,
        array_cell [Ref (Alloc 2)],
        array_cell [Ref (Alloc 13), Ref (Alloc 9), Ref (Alloc 3)],
        array_cell [Null, Undefined, JNum (Fin 0), JNum NegZero, JNum NaN, JStr [], JBool False,
                    Ref (Alloc 2), Ref (Alloc 2)]]\<rparr>"

section \<open>Lemmas on the error monad and the store\<close>

lemma ebind_Inr: "ebind m f = Inr y \<longleftrightarrow> (\<exists>x. m = Inr x \<and> f x = Inr y)"
  by (cases m) auto

lemma lookup_append:
  "lookup s a = Some c \<Longrightarrow> lookup (s\<lparr>objs := objs s @ cs\<rparr>) a = Some c"
  by (cases a) (auto simp: nth_append split: if_splits)

lemma lookup_fresh:
  "lookup (s\<lparr>objs := objs s @ cs\<rparr>) (Alloc (length (objs s) + k)) =
     (if k < length cs then Some (cs ! k) else None)"
  by (simp add: nth_append)

lemma lookup_valid_neq: "lookup s a = Some c \<Longrightarrow> a \<noteq> Alloc (length (objs s) + k)"
  by (auto split: if_splits)

lemma lookup_store_same: "lookup s a = Some c0 \<Longrightarrow> lookup (store s a c) a = Some c"
  by (cases a) (auto split: if_splits)

lemma lookup_store_other: "a \<noteq> b \<Longrightarrow> lookup (store s a c) b = lookup s b"
  by (cases a; cases b) (auto split: if_splits)

lemma length_objs_store: "length (objs (store s a c)) = length (objs s)"
  by (cases a) simp_all



section \<open>Reads survive allocation\<close>

lemma backing_append:
  assumes "backing s a = Some x"
  shows "backing (s\<lparr>objs := objs s @ cs\<rparr>) a = Some x"
proof (cases "lookup s a")
  case None
  with assms show ?thesis by (simp add: backing_def)
next
  case (Some c)
  note la = lookup_append[OF Some, of cs]
  show ?thesis
  proof (cases c)
    case (Object ob)
    with assms Some la show ?thesis by (simp add: backing_def)
  next
    case (NodeProxy t)
    with assms Some obtain ob where t: "lookup s t = Some (Object ob)" and x: "x = (t, ob)"
      by (auto simp: backing_def split: option.split_asm cell.split_asm)
    from lookup_append[OF t, of cs] la NodeProxy x show ?thesis by (simp add: backing_def)
  qed
qed







lemma plain_array_append:
  "plain_array s a = Some x \<Longrightarrow> plain_array (s\<lparr>objs := objs s @ cs\<rparr>) a = Some x"
proof -
  assume h: "plain_array s a = Some x"
  then obtain c where c: "lookup s a = Some c"
    by (auto simp: plain_array_def split: option.split_asm)
  from h c lookup_append[OF c, of cs] show ?thesis by (simp add: plain_array_def)
qed

lemma iterate_append:
  "iterate s v = Inr xs \<Longrightarrow> iterate (s\<lparr>objs := objs s @ cs\<rparr>) v = Inr xs"
proof (cases v)
  case (Ref a)
  assume h: "iterate s v = Inr xs"
  with Ref obtain x where x: "plain_array s a = Some x"
    by (auto simp: iterate_def split: option.split_asm)
  from h Ref x plain_array_append[OF x, of cs] show ?thesis
    by (simp add: iterate_def)
qed (auto simp: iterate_def)

section \<open>The Set keeps first occurrences\<close>

lemma canon_idem: "canon (canon v) = canon v"
  by (cases v rule: canon.cases) simp_all





lemma set_add_canonical:
  assumes "\<forall>e \<in> set es. canon e = e"
  shows "set_add es v = (if canon v \<in> set es then es else es @ [canon v])"
proof -
  have "(\<exists>e \<in> set es. same_value_zero e v) \<longleftrightarrow> canon v \<in> set es"
    using assms by (auto simp: same_value_zero_def canon_idem) 
  then show ?thesis by (simp add: set_add_def)
qed

lemma foldl_set_add:
  "\<forall>e \<in> set acc. canon e = e \<Longrightarrow>
   foldl set_add acc xs = acc @ keep_first (filter (\<lambda>y. y \<notin> set acc) (map canon xs))"
proof (induction xs arbitrary: acc)
  case Nil
  then show ?case by simp
next
  case (Cons x xs)
  show ?case
  proof (cases "canon x \<in> set acc")
    case True
    with Cons show ?thesis by (simp add: set_add_canonical)
  next
    case False
    have c: "\<forall>e \<in> set (acc @ [canon x]). canon e = e"
      using Cons.prems by (auto simp: canon_idem)
    have f: "filter (\<lambda>y. y \<notin> set (acc @ [canon x])) (map canon xs)
        = filter (\<lambda>y. y \<noteq> canon x) (filter (\<lambda>y. y \<notin> set acc) (map canon xs))"
      by (auto intro: filter_cong)
    from False Cons.prems have "foldl set_add acc (x # xs) = foldl set_add (acc @ [canon x]) xs"
      by (simp add: set_add_canonical)
    also have "\<dots> = (acc @ [canon x])
        @ keep_first (filter (\<lambda>y. y \<notin> set (acc @ [canon x])) (map canon xs))"
      by (rule Cons.IH[OF c])
    also have "\<dots> = acc @ keep_first (filter (\<lambda>y. y \<notin> set acc) (map canon (x # xs)))"
      using False unfolding f by simp
    finally show ?thesis .
  qed
qed

lemma new_Set_keep_first: "new_Set xs = keep_first (map canon xs)"
  by (simp add: new_Set_def foldl_set_add)

lemma set_keep_first: "set (keep_first xs) = set xs"
  by (induction xs rule: keep_first.induct) auto

lemma distinct_keep_first: "distinct (keep_first xs)"
  by (induction xs rule: keep_first.induct) (auto simp: set_keep_first)

lemma keep_first_distinct: "distinct xs \<Longrightarrow> keep_first xs = xs"
proof (induction xs)
  case (Cons x xs)
  then have "filter (\<lambda>y. y \<noteq> x) xs = xs" by (auto intro: filter_True)
  with Cons show ?case by simp
qed simp

lemma keep_first_append:
  "keep_first (xs @ ys) = keep_first xs @ keep_first (filter (\<lambda>y. y \<notin> set xs) ys)"
proof (induction xs arbitrary: ys rule: keep_first.induct)
  case 1
  then show ?case by simp
next
  case (2 x xs)
  have "filter (\<lambda>y. y \<notin> set (filter (\<lambda>y. y \<noteq> x) xs)) (filter (\<lambda>y. y \<noteq> x) ys)
      = filter (\<lambda>y. y \<notin> set (x # xs)) ys"
    by (auto intro: filter_cong)
  with 2[of "filter (\<lambda>y. y \<noteq> x) ys"] show ?case by simp
qed

lemma set_new_Set: "set (new_Set xs) = canon ` set xs"
  by (simp add: new_Set_keep_first set_keep_first)

lemma distinct_new_Set: "distinct (new_Set xs)"
  by (simp add: new_Set_keep_first distinct_keep_first)

lemma canon_new_Set: "map canon (new_Set xs) = new_Set xs"
  by (rule map_idI) (auto simp: set_new_Set canon_idem)

lemma new_Set_absorb: "new_Set (new_Set (xs @ ys) @ ys) = new_Set (xs @ ys)"
proof -
  have "filter (\<lambda>y. y \<notin> set (new_Set (xs @ ys))) (map canon ys) = []"
    by (auto simp: set_new_Set filter_empty_conv)
  then show ?thesis
    by (simp add: new_Set_keep_first[of "new_Set (xs @ ys) @ ys"] canon_new_Set keep_first_append
        keep_first_distinct distinct_new_Set)
qed


section \<open>What the constructor and addDelegation leave in the store\<close>


lemma construct_literal_closed:
  "construct_literal s L =
     Inr ((Ref (Alloc (length (objs s) + 4)), Ref (Alloc (length (objs s) + 1))),
          s\<lparr>objs := objs s @
            [array_cell L,
             Object \<lparr>shape = Plain, proto = Ref (Intr MultipleDelegationPrototype),
                     extensible = True,
                     props = [(KList, Ref (Alloc (length (objs s) + 3))),
                              (KTarget, Ref (Alloc (length (objs s) + 1))),
                              (KMetadata, Ref (Alloc (length (objs s) + 5)))]\<rparr>,
             array_cell [], array_cell (new_Set L),
             NodeProxy (Alloc (length (objs s) + 1)),
             Object \<lparr>shape = Metadata (Alloc (length (objs s) + 1)),
                     proto = Ref (Intr ObjectPrototype), extensible = True,
                     props = [(KStr ''type'', JStr ''Multiple delegation proxy'')]\<rparr>]\<rparr>)"
  by (simp add: construct_literal_def construct_def alloc_def array_literal_def array_cell_def
        put_def setter_def isArray_def backing_def get_def iterate_def plain_array_def
        nth_append list_update_append Let_def)



section \<open>Nodes and hosts\<close>










section \<open>A list argument that is already in the store\<close>














lemma new_Set_distinct_refs:
  "distinct as \<Longrightarrow> new_Set (map Ref as) = map Ref as"
proof -
  assume d: "distinct as"
  have "map canon (map Ref as) = map Ref as" by (induction as) simp_all
  moreover have "distinct (map Ref as)" using d by (simp add: distinct_map inj_on_def)
  ultimately show ?thesis by (simp add: new_Set_keep_first keep_first_distinct del: map_map)
qed











section \<open>The setter\<close>

lemma isArray_append:
  "isArray s v = Inr r \<Longrightarrow> isArray (s\<lparr>objs := objs s @ cs\<rparr>) v = Inr r"
proof (cases v)
  case (Ref a)
  assume h: "isArray s v = Inr r"
  with Ref obtain x where x: "backing s a = Some x"
    by (auto simp: isArray_def split: option.split_asm)
  from h Ref x backing_append[OF x, of cs] show ?thesis
    by (simp add: isArray_def)
qed (auto simp: isArray_def)

text \<open>Replacing the properties of an object changes no shape, so \<open>isArray\<close> stays.\<close>

lemma isArray_store_props:
  assumes a: "lookup s a = Some (Object ob)"
    and r: "isArray s v = Inr r"
  shows "isArray (store s a (Object (ob\<lparr>props := ps\<rparr>))) v = Inr r"
proof (cases v)
  case (Ref b)
  let ?s' = "store s a (Object (ob\<lparr>props := ps\<rparr>))"
  have sa: "lookup ?s' a = Some (Object (ob\<lparr>props := ps\<rparr>))"
    by (rule lookup_store_same[OF a])
  from r Ref obtain c where c: "lookup s b = Some c"
    by (auto simp: isArray_def backing_def split: option.split_asm)
  show ?thesis
  proof (cases c)
    case (Object ob')
    show ?thesis
    proof (cases "b = a")
      case True
      with a c Object r Ref sa show ?thesis by (simp add: isArray_def backing_def)
    next
      case False
      then have "lookup ?s' b = lookup s b" by (simp add: lookup_store_other)
      with c Object r Ref show ?thesis by (simp add: isArray_def backing_def)
    qed
  next
    case (NodeProxy t)
    with a c have ba: "a \<noteq> b" by auto
    then have sb: "lookup ?s' b = Some (NodeProxy t)"
      using c NodeProxy by (simp add: lookup_store_other)
    from r Ref c NodeProxy obtain ob' where t: "lookup s t = Some (Object ob')"
      by (auto simp: isArray_def backing_def split: option.split_asm cell.split_asm)
    show ?thesis
    proof (cases "t = a")
      case True
      with a t c NodeProxy r Ref sa sb show ?thesis by (simp add: isArray_def backing_def)
    next
      case False
      then have "lookup ?s' t = lookup s t" by (simp add: lookup_store_other)
      with t c NodeProxy r Ref sb show ?thesis by (simp add: isArray_def backing_def)
    qed
  qed
qed (use r in \<open>auto simp: isArray_def\<close>)

text \<open>What one call of the setter does, when it returns.\<close>

lemma setter_Inr:
  assumes "setter s this v = Inr s1"
  obtains a ob cur xs ys isarr where "this = Ref a"
    and "lookup s a = Some (Object ob)"
    and "map_of (props ob) KList = Some cur"
    and "iterate s cur = Inr xs"
    and "isArray s v = Inr isarr"
    and "(if isarr then iterate s v else Inr [v]) = Inr ys"
    and "s1 = store (s\<lparr>objs := objs s @ [array_cell (new_Set (xs @ ys))]\<rparr>) a
                (Object (ob\<lparr>props := AList.update KList (Ref (Alloc (length (objs s)))) (props ob)\<rparr>))"
proof -
  let ?n = "length (objs s)"
  from assms obtain isarr cur xs ys where ia: "isArray s v = Inr isarr"
    and g: "get s this KList = Inr cur"
    and it: "iterate s cur = Inr xs"
    and ys: "(if isarr then iterate s v else Inr [v]) = Inr ys"
    and pt: "put (s\<lparr>objs := objs s @ [array_cell (new_Set (xs @ ys))]\<rparr>) this KList
               (Ref (Alloc ?n)) = Inr s1"
    by (auto simp: setter_def ebind_Inr array_literal_def alloc_def)
  let ?S = "s\<lparr>objs := objs s @ [array_cell (new_Set (xs @ ys))]\<rparr>"
  from g obtain a where ta: "this = Ref a"
    by (cases this) (simp_all add: get_def)
  from g ta obtain b ob where b: "backing s a = Some (b, ob)"
    and kl: "map_of (props ob) KList = Some cur"
    by (auto simp: get_def split: option.split_asm)
  from b obtain c where c: "lookup s a = Some c"
    by (auto simp: backing_def split: option.split_asm)
  note cS = lookup_append[OF c, of "[array_cell (new_Set (xs @ ys))]"]
  from pt ta cS obtain ob' where c': "c = Object ob'"
    by (cases c) (simp_all add: put_def)
  from b c c' have ob: "ob' = ob" by (simp add: backing_def)
  from kl have "KList \<in> fst ` set (props ob)"
    by (metis domI dom_map_of_conv_image_fst)
  with pt ta cS c' ob have s1: "s1 = store ?S a
      (Object (ob\<lparr>props := AList.update KList (Ref (Alloc ?n)) (props ob)\<rparr>))"
    by (simp add: put_def)
  from c c' ob have la: "lookup s a = Some (Object ob)" by simp
  from that[OF ta la kl it ia ys s1] show thesis .
qed

lemma target_delegates_cells:
  assumes "lookup s a = Some (Object ob)"
    and "map_of (props ob) KList = Some (Ref l)"
    and "lookup s l = Some (array_cell xs)"
  shows "target_delegates s (Ref a) = Inr xs"
  using assms
  by (simp add: target_delegates_def get_def backing_def iterate_def plain_array_def
      array_cell_def)

lemma is_objectE:
  assumes "is_object s a"
  obtains ob where "lookup s a = Some (Object ob)"
  using assms by (auto simp: is_object_def split: option.split_asm cell.split_asm)

text \<open>The setter called with an array literal on a raw target.\<close>

lemma setter_literal_merges:
  assumes obj: "is_object s a"
    and td: "target_delegates s (Ref a) = Inr xs"
  shows "\<exists>s'. setter_literal s (Ref a) L = Inr s'
           \<and> target_delegates s' (Ref a) = Inr (keep_first (map canon (xs @ L)))"
proof -
  let ?n = "length (objs s)"
  from obj obtain ob where a: "lookup s a = Some (Object ob)" by (rule is_objectE)
  from td a obtain cur where kl: "map_of (props ob) KList = Some cur"
    and it: "iterate s cur = Inr xs"
    by (auto simp: target_delegates_def get_def backing_def ebind_Inr split: option.split_asm)
  have kl': "KList \<in> fst ` set (props ob)"
    using kl by (metis domI dom_map_of_conv_image_fst)
  let ?zs = "new_Set (xs @ L)"
  let ?S0 = "s\<lparr>objs := objs s @ [array_cell L]\<rparr>"
  let ?S1 = "s\<lparr>objs := objs s @ [array_cell L, array_cell ?zs]\<rparr>"
  let ?ob' = "ob\<lparr>props := AList.update KList (Ref (Alloc (?n + 1))) (props ob)\<rparr>"
  let ?s' = "store ?S1 a (Object ?ob')"
  have g0: "get ?S0 (Ref a) KList = Inr cur"
    using lookup_append[OF a, of "[array_cell L]"] kl by (simp add: get_def backing_def)
  note i0 = iterate_append[OF it, of "[array_cell L]"]
  have aS1: "lookup ?S1 a = Some (Object ob)" by (rule lookup_append[OF a])
  have run: "setter_literal s (Ref a) L = Inr ?s'"
    using g0 i0 aS1 kl'
    by (simp add: setter_literal_def setter_def array_literal_def alloc_def isArray_def
        backing_def iterate_def[of _ "Ref (Alloc _)"] plain_array_def array_cell_def put_def)
  have a': "lookup ?s' a = Some (Object ?ob')" by (rule lookup_store_same[OF aS1])
  have "lookup ?s' (Alloc (?n + 1)) = lookup ?S1 (Alloc (?n + 1))"
    by (rule lookup_store_other[OF lookup_valid_neq[OF a]])
  then have n1: "lookup ?s' (Alloc (?n + 1)) = Some (array_cell ?zs)" by (simp add: nth_append)
  have kl2: "map_of (props ?ob') KList = Some (Ref (Alloc (?n + 1)))"
    by (simp add: update_conv')
  have "target_delegates ?s' (Ref a) = Inr ?zs"
    by (rule target_delegates_cells[OF a' kl2 n1])
  with run show ?thesis by (auto simp: new_Set_keep_first)
qed














section \<open>The claims\<close>













text \<open>
  C5. When a call of the setter with the argument \<open>L\<close> returns, a second call with
  the same argument returns as well and leaves the delegates as the first call left
  them.
\<close>

theorem setter_twice_same:
  assumes "setter s this L = Inr s1"
  shows "\<exists>s2 ys. setter s1 this L = Inr s2
           \<and> target_delegates s1 this = Inr ys
           \<and> target_delegates s2 this = Inr ys"
proof -
  let ?n = "length (objs s)"
  from assms obtain a ob cur xs ys isarr where ta: "this = Ref a"
    and a: "lookup s a = Some (Object ob)"
    and kl: "map_of (props ob) KList = Some cur"
    and it: "iterate s cur = Inr xs"
    and ia: "isArray s L = Inr isarr"
    and ys: "(if isarr then iterate s L else Inr [L]) = Inr ys"
    and s1: "s1 = store (s\<lparr>objs := objs s @ [array_cell (new_Set (xs @ ys))]\<rparr>) a
                (Object (ob\<lparr>props := AList.update KList (Ref (Alloc (length (objs s)))) (props ob)\<rparr>))"
    by (rule setter_Inr)
  let ?zs = "new_Set (xs @ ys)"
  let ?S = "s\<lparr>objs := objs s @ [array_cell ?zs]\<rparr>"
  let ?ob1 = "ob\<lparr>props := AList.update KList (Ref (Alloc ?n)) (props ob)\<rparr>"
  have aS: "lookup ?S a = Some (Object ob)" by (rule lookup_append[OF a])
  have a1: "lookup s1 a = Some (Object ?ob1)"
    unfolding s1 by (rule lookup_store_same[OF aS])
  have an: "a \<noteq> Alloc ?n" using lookup_valid_neq[OF a, of 0] by simp
  have "lookup s1 (Alloc ?n) = lookup ?S (Alloc ?n)"
    unfolding s1 by (rule lookup_store_other[OF an])
  then have n1: "lookup s1 (Alloc ?n) = Some (array_cell ?zs)" by simp
  have len1: "length (objs s1) = Suc ?n"
    unfolding s1 by (simp add: length_objs_store)
  have kl1: "map_of (props ?ob1) KList = Some (Ref (Alloc ?n))"
    by (simp add: update_conv')
  have td1: "target_delegates s1 this = Inr ?zs"
    unfolding ta by (rule target_delegates_cells[OF a1 kl1 n1])
  have ia1: "isArray s1 L = Inr isarr"
    unfolding s1 by (rule isArray_store_props[OF aS isArray_append[OF ia]])
  have ys1: "(if isarr then iterate s1 L else Inr [L]) = Inr ys"
  proof (cases isarr)
    case False
    with ys show ?thesis by simp
  next
    case True
    with ys have iy: "iterate s L = Inr ys" by simp
    show ?thesis
    proof (cases L)
      case (Ref b)
      with iy obtain lob where pb: "plain_array s b = Some (lob, ys)"
        by (auto simp: iterate_def split: option.split_asm)
      have "b \<noteq> a"
      proof
        assume "b = a"
        with pb a kl show False
          by (auto simp: plain_array_def split: shape.split_asm if_split_asm)
      qed
      then have "lookup s1 b = lookup ?S b" unfolding s1 by (simp add: lookup_store_other)
      with plain_array_append[OF pb, of "[array_cell ?zs]"]
      have "plain_array s1 b = Some (lob, ys)" by (simp add: plain_array_def)
      with True Ref show ?thesis by (simp add: iterate_def)
    qed (use iy True in \<open>auto simp: iterate_def\<close>)
  qed
  let ?zs2 = "new_Set (?zs @ ys)"
  let ?S1 = "s1\<lparr>objs := objs s1 @ [array_cell ?zs2]\<rparr>"
  let ?ob2 = "?ob1\<lparr>props := AList.update KList (Ref (Alloc (Suc ?n))) (props ?ob1)\<rparr>"
  let ?s2 = "store ?S1 a (Object ?ob2)"
  have g1: "get s1 this KList = Inr (Ref (Alloc ?n))"
    unfolding ta using a1 kl1 by (simp add: get_def backing_def)
  have i1: "iterate s1 (Ref (Alloc ?n)) = Inr ?zs"
    using n1 by (simp add: iterate_def plain_array_def array_cell_def)
  have aS1: "lookup ?S1 a = Some (Object ?ob1)" by (rule lookup_append[OF a1])
  have run2: "setter s1 this L = Inr ?s2"
    using ia1 g1 i1 ys1 aS1 len1
    by (simp add: setter_def array_literal_def alloc_def put_def ta dom_update)
  have a2: "lookup ?s2 a = Some (Object ?ob2)" by (rule lookup_store_same[OF aS1])
  have f2: "lookup ?S1 (Alloc (length (objs s1))) = Some (array_cell ?zs2)" by simp
  have ne2: "a \<noteq> Alloc (length (objs s1))" using lookup_valid_neq[OF a1, of 0] by simp
  have "lookup ?s2 (Alloc (length (objs s1))) = lookup ?S1 (Alloc (length (objs s1)))"
    by (rule lookup_store_other[OF ne2])
  with f2 have "lookup ?s2 (Alloc (length (objs s1))) = Some (array_cell ?zs2)"
    by (simp only:)
  then have n2: "lookup ?s2 (Alloc (Suc ?n)) = Some (array_cell ?zs2)"
    by (simp only: len1)
  have kl2: "map_of (props ?ob2) KList = Some (Ref (Alloc (Suc ?n)))"
    by (simp add: update_conv')
  have "target_delegates ?s2 this = Inr ?zs2"
    unfolding ta by (rule target_delegates_cells[OF a2 kl2 n2])
  then have td2: "target_delegates ?s2 this = Inr ?zs" by (simp only: new_Set_absorb)
  from run2 td1 td2 show ?thesis by blast
qed

theorem setter_twice_same_witness:
  "\<exists>s1. setter example_attached (Ref (Alloc 9)) (Ref (Alloc 3)) = Inr s1
     \<and> (\<exists>s2 ys. setter s1 (Ref (Alloc 9)) (Ref (Alloc 3)) = Inr s2
           \<and> target_delegates s1 (Ref (Alloc 9)) = Inr ys
           \<and> target_delegates s2 (Ref (Alloc 9)) = Inr ys)"
proof -
  have "\<not> isl (setter example_attached (Ref (Alloc 9)) (Ref (Alloc 3)))" by code_simp
  then obtain s1 where s1: "setter example_attached (Ref (Alloc 9)) (Ref (Alloc 3)) = Inr s1"
    by (cases "setter example_attached (Ref (Alloc 9)) (Ref (Alloc 3))") simp_all
  from setter_twice_same[OF s1] s1 show ?thesis by blast
qed

text \<open>
  C6. The setter called with a list on a raw target whose delegates are \<open>xs\<close> leaves
  the sequence \<open>xs\<close> followed by the list, with every value kept once, at the place of
  its first occurrence: \<open>keep_first\<close>, the merge as the specification words it. (A
  value is compared as a Set does: \<open>canon\<close> stores -0 as +0 and leaves every other
  value, an object reference in particular, as it is.)
\<close>

theorem setter_keeps_first_occurrences:
  assumes "is_object s a"
    and "target_delegates s (Ref a) = Inr xs"
  shows "\<exists>s' ys. setter_literal s (Ref a) L = Inr s'
           \<and> target_delegates s' (Ref a) = Inr ys
           \<and> ys = keep_first (map canon (xs @ L))
           \<and> distinct ys
           \<and> set ys = canon ` set (xs @ L)"
  using setter_literal_merges[OF assms, of L]
  by (auto simp: distinct_keep_first set_keep_first)

theorem setter_keeps_first_occurrences_witness:
  "is_object example_empty_node (Alloc 9)
   \<and> target_delegates example_empty_node (Ref (Alloc 9)) = Inr []
   \<and> (\<exists>s'. setter_literal example_empty_node (Ref (Alloc 9))
                [Ref (Alloc 2), Ref (Alloc 3), Ref (Alloc 2), Ref (Alloc 4)] = Inr s'
           \<and> target_delegates s' (Ref (Alloc 9))
                = Inr [Ref (Alloc 2), Ref (Alloc 3), Ref (Alloc 4)])"
proof -
  have a: "is_object example_empty_node (Alloc 9)" by code_simp
  have b: "target_delegates example_empty_node (Ref (Alloc 9)) = Inr []" by code_simp
  from setter_keeps_first_occurrences[OF a b,
      of "[Ref (Alloc 2), Ref (Alloc 3), Ref (Alloc 2), Ref (Alloc 4)]"]
  obtain s' ys where "setter_literal example_empty_node (Ref (Alloc 9))
                [Ref (Alloc 2), Ref (Alloc 3), Ref (Alloc 2), Ref (Alloc 4)] = Inr s'"
    and "target_delegates s' (Ref (Alloc 9)) = Inr ys"
    and "ys = keep_first (map canon
                 ([] @ [Ref (Alloc 2), Ref (Alloc 3), Ref (Alloc 2), Ref (Alloc 4)]))"
    by blast
  with a b show ?thesis by simp
qed

text \<open>
  C7. \<open>addDelegation\<close> with an empty array as the list (or with the list omitted)
  returns at once with the store untouched, whatever the host is: no prototype slot and
  no node's delegates change.
\<close>

theorem addDelegation_empty_noop:
  assumes "lookup s d = Some (Object ob)" and "shape ob = Array []"
  shows "addDelegation s host (Ref d) = Inr s \<and> addDelegation s host Undefined = Inr s"
  using assms by (simp add: addDelegation_def length_is_zero_def)

theorem addDelegation_empty_noop_witness:
  "lookup example_attached (Alloc 10) = Some (array_cell [])
   \<and> addDelegation example_attached (Ref (Alloc 1)) (Ref (Alloc 10)) = Inr example_attached
   \<and> addDelegation example_attached Null (Ref (Alloc 10)) = Inr example_attached
   \<and> addDelegation example_attached (Ref (Alloc 1)) Undefined = Inr example_attached"
proof -
  have a: "lookup example_attached (Alloc 10) = Some (array_cell [])" by code_simp
  have b: "shape \<lparr>shape = Array [], proto = Ref (Intr ArrayPrototype), extensible = True,
                   props = []\<rparr> = Array []" by simp
  from addDelegation_empty_noop[OF a[unfolded array_cell_def] b, of "Ref (Alloc 1)"]
    addDelegation_empty_noop[OF a[unfolded array_cell_def] b, of Null] a
  show ?thesis by simp
qed

text \<open>
  C8, as amended. \<open>MultipleDelegation[Symbol.hasInstance](x)\<close> returns \<open>undefined\<close>,
  a falsy value that is not \<open>false\<close>, when \<open>x\<close> is falsy (null and undefined among
  them), when \<open>x\<close> is not a reference (a primitive such as 5), when \<open>x\<close> is a
  function, also one that carries the marker, and when \<open>x\<close> is an object without the
  marker key \<open>$.target\<close> among its own keys. It returns \<open>true\<close> exactly when
  \<open>typeof x\<close> is \<open>'object'\<close> (so \<open>x\<close> is not a function), \<open>x\<close> is not null,
  \<open>x\<close> has the marker among its own keys and the prototype, one hop, of the value under
  the marker is the class prototype.
\<close>

theorem hasInstance_result:
  "(\<not> truthy x \<longrightarrow> hasInstance s x = Inr Undefined)
   \<and> ((\<forall>a. x \<noteq> Ref a) \<longrightarrow> hasInstance s x = Inr Undefined)
   \<and> (typeof s x = Inr TFunction \<longrightarrow> hasInstance s x = Inr Undefined)
   \<and> ((\<exists>ks. reflect_ownKeys s x = Inr ks \<and> KTarget \<notin> set ks) \<longrightarrow>
        hasInstance s x = Inr Undefined)
   \<and> (hasInstance s x = Inr (JBool True) \<longleftrightarrow>
        truthy x \<and> typeof s x = Inr TObject
        \<and> (\<exists>ks. reflect_ownKeys s x = Inr ks \<and> KTarget \<in> set ks)
        \<and> (\<exists>t. get s x KTarget = Inr t
               \<and> object_getPrototypeOf s t = Inr (Ref (Intr MultipleDelegationPrototype))))"
proof (intro conjI impI)
  assume "\<not> truthy x"
  then show "hasInstance s x = Inr Undefined" by (simp add: hasInstance_def)
next
  assume "\<forall>a. x \<noteq> Ref a"
  then show "hasInstance s x = Inr Undefined"
    by (cases x) (simp_all add: hasInstance_def typeof_def)
next
  assume "typeof s x = Inr TFunction"
  then show "hasInstance s x = Inr Undefined" by (simp add: hasInstance_def)
next
  assume "\<exists>ks. reflect_ownKeys s x = Inr ks \<and> KTarget \<notin> set ks"
  then obtain ks where ks: "reflect_ownKeys s x = Inr ks" and no: "KTarget \<notin> set ks" by blast
  from ks obtain a where x: "x = Ref a"
    by (cases x) (simp_all add: reflect_ownKeys_def)
  from ks x obtain b ob where "backing s a = Some (b, ob)"
    by (auto simp: reflect_ownKeys_def split: option.split_asm)
  with x ks no show "hasInstance s x = Inr Undefined"
    by (simp add: hasInstance_def typeof_def)
next
  show "hasInstance s x = Inr (JBool True) \<longleftrightarrow>
        truthy x \<and> typeof s x = Inr TObject
        \<and> (\<exists>ks. reflect_ownKeys s x = Inr ks \<and> KTarget \<in> set ks)
        \<and> (\<exists>t. get s x KTarget = Inr t
               \<and> object_getPrototypeOf s t = Inr (Ref (Intr MultipleDelegationPrototype)))"
    (is "?l \<longleftrightarrow> ?r")
  proof
    assume ?l
    then show ?r
      by (auto simp: hasInstance_def ebind_Inr split: if_split_asm)
  next
    assume ?r
    then show ?l by (auto simp: hasInstance_def)
  qed
qed

theorem hasInstance_result_witness:
  "hasInstance example_attached Null = Inr Undefined
   \<and> hasInstance example_attached Undefined = Inr Undefined
   \<and> hasInstance example_attached (JNum (Fin 5)) = Inr Undefined
   \<and> hasInstance example_attached (Ref (Alloc 0)) = Inr Undefined
   \<and> hasInstance edge_store (Ref (Alloc 17)) = Inr Undefined
   \<and> hasInstance example_attached (Ref (Alloc 13)) = Inr (JBool True)"
proof -
  have k0: "reflect_ownKeys example_attached (Ref (Alloc 0)) = Inr []" by code_simp
  have f: "typeof edge_store (Ref (Alloc 17)) = Inr TFunction" by code_simp
  have t: "truthy (Ref (Alloc 13))" by simp
  have ty: "typeof example_attached (Ref (Alloc 13)) = Inr TObject" by code_simp
  have k: "reflect_ownKeys example_attached (Ref (Alloc 13)) = Inr [KList, KTarget, KMetadata]"
    by code_simp
  have g: "get example_attached (Ref (Alloc 13)) KTarget = Inr (Ref (Alloc 9))" by code_simp
  have p: "object_getPrototypeOf example_attached (Ref (Alloc 9))
             = Inr (Ref (Intr MultipleDelegationPrototype))" by code_simp
  from hasInstance_result[of Null example_attached]
    hasInstance_result[of Undefined example_attached]
    hasInstance_result[of "JNum (Fin 5)" example_attached]
    hasInstance_result[of "Ref (Alloc 0)" example_attached]
    hasInstance_result[of "Ref (Alloc 17)" edge_store]
    hasInstance_result[of "Ref (Alloc 13)" example_attached]
    k0 f t ty k g p
  show ?thesis by simp
qed

text \<open>
  C8 fails as stated. The function at address 17 of \<open>edge_store\<close> carries the marker,
  and the value under the marker is the raw target at address 9, whose prototype is the
  class prototype: the method returns \<open>undefined\<close>, not \<open>true\<close>, because
  \<open>typeof\<close> of a function is not \<open>'object'\<close>.
\<close>

theorem hasInstance_function_with_marker:
  "typeof edge_store (Ref (Alloc 17)) = Inr TFunction
   \<and> reflect_ownKeys edge_store (Ref (Alloc 17)) = Inr [KTarget]
   \<and> get edge_store (Ref (Alloc 17)) KTarget = Inr (Ref (Alloc 9))
   \<and> object_getPrototypeOf edge_store (Ref (Alloc 9))
       = Inr (Ref (Intr MultipleDelegationPrototype))
   \<and> hasInstance edge_store (Ref (Alloc 17)) = Inr Undefined"
  by code_simp







end
